theory Spec2Isabelle
  imports Complex_Main "HOL-Library.Sublist"
begin

section \<open>The context compression service of bytebot\<close>

text \<open>
  A shallow embedding of \<^verbatim>\<open>ContextCompressionService\<close> (the TypeScript class with
  \<^verbatim>\<open>countTokens\<close>, \<^verbatim>\<open>compressContext\<close> and the four reduction strategies).

  Conventions of the embedding:
  \<^item> A JavaScript \<^verbatim>\<open>number\<close> that holds a budget or a score is a \<open>real\<close>; lengths and
    token counts are \<open>nat\<close>. The source computes in IEEE doubles and the model in exact
    reals. A product or quotient that is a whole number in the reals can fall just below it
    in doubles, so on some inputs the code cuts a text one character earlier than
    \<open>truncateMessage\<close> here (\<^verbatim>\<open>90 * (7 / 10)\<close> floors to 62 in doubles, to 63 in the reals),
    and two scores that are equal in \<open>score_message\<close> can differ in the code, which changes
    the rank of the two turns. A comparison with \<open>w * 0.75\<close> is exact for every integer
    \<open>w\<close> below \<open>2 ^ 51\<close>. The general theorems below do not depend on the rounded values;
    the concrete inputs give the same values in double arithmetic.
  \<^item> A message object is a record that carries its address (\<open>addr\<close>) next to its fields.
    The service never mutates a message, so \<^verbatim>\<open>===\<close>, \<^verbatim>\<open>includes\<close> and \<^verbatim>\<open>indexOf\<close> on
    objects are equality of such records; a fresh object takes the first unused address.
  \<^item> The tokenizer (\<^verbatim>\<open>encode\<close> of gpt-tokenizer) and \<^verbatim>\<open>JSON.stringify\<close> are libraries
    outside the repository. They are parameters, collected in the record \<open>env\<close>.
  \<^item> Strings are \<open>char list\<close>; \<^verbatim>\<open>toLowerCase\<close> is modelled on ASCII letters.
  \<^item> \<^verbatim>\<open>async\<close> functions are run to completion in program order; a recursion that
    never returns has the value \<open>None\<close>.
\<close>

subsection \<open>Data model\<close>

datatype role = User | Assistant

text \<open>Structured data (\<^verbatim>\<open>unknown\<close> JSON values) stays abstract: the type variable \<open>'j\<close>.\<close>

datatype 'j tool_result_content = ResultText string | ResultData 'j

datatype 'j block =
    TextBlock string
  | ToolUseBlock string string 'j
  | ToolResultBlock string "'j tool_result_content"
  | OtherBlock 'j

datatype 'j content = Str string | Blocks "'j block list"

record 'j MessageParam =
  addr :: nat
  role :: role
  content :: "'j content"

record 'j env =
  encode :: "string \<Rightarrow> nat list"
  stringify :: "'j \<Rightarrow> string"
  stringify_content :: "'j block list \<Rightarrow> string"

datatype strategy_type = Summarize | Truncate | SlidingWindow | PriorityBased

text \<open>
  The fields \<^verbatim>\<open>type\<close>, \<^verbatim>\<open>maxTokens\<close>, \<^verbatim>\<open>preserveRecent\<close> and \<^verbatim>\<open>preserveImportant\<close> of
  the strategy descriptor, with the prefix \<open>s\<close>; an optional field is an \<open>option\<close>.
\<close>

record CompressionStrategy =
  stype :: strategy_type
  smaxTokens :: real
  spreserveRecent :: "nat option"
  spreserveImportant :: "bool option"

text \<open>
  \<^verbatim>\<open>compressedTokenCount / originalTokenCount\<close> divides two non-negative integers;
  JavaScript gives \<^verbatim>\<open>NaN\<close> for \<open>0/0\<close> and \<^verbatim>\<open>Infinity\<close> for \<open>n/0\<close>.
\<close>

datatype number = Finite real | PosInfinity | NotANumber

record 'j CompressedContext =
  messages :: "'j MessageParam list"
  summary :: "string option"
  compressionRatio :: number
  originalTokenCount :: nat
  compressedTokenCount :: nat
  strategy :: CompressionStrategy

definition DEFAULT_MAX_TOKENS :: real where
  "DEFAULT_MAX_TOKENS = 150000"

definition COMPRESSION_THRESHOLD :: real where
  "COMPRESSION_THRESHOLD = 0.75"

subsection \<open>countTokens\<close>

text \<open>The body of the inner loop: one content block adds to \<^verbatim>\<open>totalTokens\<close>.\<close>

fun add_block_tokens :: "'j env \<Rightarrow> 'j block \<Rightarrow> nat \<Rightarrow> nat" where
  "add_block_tokens E (TextBlock t) totalTokens = totalTokens + length (encode E t)"
| "add_block_tokens E (ToolUseBlock i n inp) totalTokens =
     totalTokens + length (encode E (stringify E inp))"
| "add_block_tokens E (ToolResultBlock i c) totalTokens =
     totalTokens + length (encode E (case c of ResultText s \<Rightarrow> s | ResultData d \<Rightarrow> stringify E d))"
| "add_block_tokens E (OtherBlock d) totalTokens = totalTokens"

text \<open>The body of the outer loop: one message adds to \<^verbatim>\<open>totalTokens\<close>.\<close>

definition add_message_tokens :: "'j env \<Rightarrow> 'j MessageParam \<Rightarrow> nat \<Rightarrow> nat" where
  "add_message_tokens E m totalTokens =
     (case content m of
        Str s \<Rightarrow> totalTokens + length (encode E s)
      | Blocks bs \<Rightarrow> fold (add_block_tokens E) bs totalTokens)"

definition countTokens :: "'j env \<Rightarrow> 'j MessageParam list \<Rightarrow> nat" where
  "countTokens E msgs = fold (add_message_tokens E) msgs 0"

subsection \<open>detectContextOverflow\<close>

definition detectContextOverflow :: "real \<Rightarrow> real \<Rightarrow> bool" where
  "detectContextOverflow currentTokens modelContextWindow \<longleftrightarrow>
     currentTokens \<ge> modelContextWindow * COMPRESSION_THRESHOLD"

subsection \<open>Arrays and strings of the JavaScript library\<close>

text \<open>
  \<^verbatim>\<open>xs.slice(-k)\<close> for an integer \<open>k \<ge> 0\<close>: the last \<open>k\<close> elements; for \<open>k = 0\<close> the
  argument is \<open>-0\<close>, which is \<open>0\<close>, and the whole array comes back.
\<close>

definition slice_from_end :: "nat \<Rightarrow> 'a list \<Rightarrow> 'a list" where
  "slice_from_end k xs = (if k = 0 then xs else drop (length xs - k) xs)"

text \<open>\<^verbatim>\<open>xs.slice(0, -k)\<close>: all but the last \<open>k\<close> elements; for \<open>k = 0\<close> it is \<^verbatim>\<open>xs.slice(0, 0)\<close>.\<close>

definition slice_upto_end :: "nat \<Rightarrow> 'a list \<Rightarrow> 'a list" where
  "slice_upto_end k xs = (if k = 0 then [] else take (length xs - k) xs)"

text \<open>\<^verbatim>\<open>xs.slice(a, b)\<close> for integers \<open>a, b \<ge> 0\<close>.\<close>

definition slice :: "nat \<Rightarrow> nat \<Rightarrow> 'a list \<Rightarrow> 'a list" where
  "slice a b xs = take (b - a) (drop a xs)"

text \<open>\<^verbatim>\<open>xs.indexOf(a)\<close>: the first position of \<open>a\<close>, or \<open>-1\<close>.\<close>

fun indexOf :: "'a list \<Rightarrow> 'a \<Rightarrow> int" where
  "indexOf [] a = - 1"
| "indexOf (x # xs) a =
     (if x = a then 0 else if indexOf xs a < 0 then - 1 else indexOf xs a + 1)"

text \<open>\<^verbatim>\<open>[...new Set(xs)]\<close>: every element once, in the order of first insertion.\<close>

definition array_from_set :: "'a list \<Rightarrow> 'a list" where
  "array_from_set xs = fold (\<lambda>x seen. if x \<in> set seen then seen else seen @ [x]) xs []"

definition newline :: char where
  "newline = CHR 0x0A"

definition lower_char :: "char \<Rightarrow> char" where
  "lower_char c =
     (if 65 \<le> (of_char c :: nat) \<and> (of_char c :: nat) \<le> 90
      then char_of ((of_char c :: nat) + 32) else c)"

definition toLowerCase :: "string \<Rightarrow> string" where
  "toLowerCase s = map lower_char s"

text \<open>\<^verbatim>\<open>s.includes(k)\<close>: \<open>k\<close> occurs in \<open>s\<close> as a contiguous substring.\<close>

fun str_includes :: "string \<Rightarrow> string \<Rightarrow> bool" where
  "str_includes [] k = (k = [])"
| "str_includes (c # cs) k = (prefix k (c # cs) \<or> str_includes cs k)"

text \<open>\<^verbatim>\<open>parts.join(sep)\<close>.\<close>

fun join :: "string \<Rightarrow> string list \<Rightarrow> string" where
  "join sep [] = []"
| "join sep [x] = x"
| "join sep (x # y # ys) = x @ sep @ join sep (y # ys)"

text \<open>A non-negative integer inside a template literal: its decimal digits.\<close>

fun show_nat :: "nat \<Rightarrow> string" where
  "show_nat n =
     (if n < 10 then [char_of (48 + n)]
      else show_nat (n div 10) @ [char_of (48 + n mod 10)])"

definition role_name :: "role \<Rightarrow> string" where
  "role_name r = (case r of User \<Rightarrow> ''user'' | Assistant \<Rightarrow> ''assistant'')"

text \<open>\<^verbatim>\<open>a / b\<close> for two token counts.\<close>

definition js_divide :: "nat \<Rightarrow> nat \<Rightarrow> number" where
  "js_divide a b =
     (if b \<noteq> 0 then Finite (real a / real b)
      else if a = 0 then NotANumber else PosInfinity)"

subsection \<open>truncateContext\<close>

text \<open>
  The loop \<^verbatim>\<open>for (let i = messages.length - preserveRecent - 1; i >= 0; i--)\<close>. Its first
  list argument holds \<^verbatim>\<open>messages[i]\<close> for the values \<open>i\<close> takes, newest first;
  \<^verbatim>\<open>unshift\<close> is \<open>#\<close>, \<^verbatim>\<open>break\<close> returns.
\<close>

fun backfill ::
  "'j env \<Rightarrow> real \<Rightarrow> 'j MessageParam list \<Rightarrow> 'j MessageParam list \<Rightarrow> nat
     \<Rightarrow> 'j MessageParam list" where
  "backfill E targetTokens [] result currentTokens = result"
| "backfill E targetTokens (m # older) result currentTokens =
     (let messageTokens = countTokens E [m] in
      if real (currentTokens + messageTokens) \<le> targetTokens
      then backfill E targetTokens older (m # result) (currentTokens + messageTokens)
      else result)"

text \<open>
  \<open>preserveRecent\<close> ranges over the non-negative integers. The TypeScript default value
  \<open>5\<close> is supplied by the caller (see \<open>compressContext\<close>).
\<close>

function truncateContext ::
  "'j env \<Rightarrow> 'j MessageParam list \<Rightarrow> real \<Rightarrow> nat \<Rightarrow> 'j MessageParam list" where
  "truncateContext E msgs targetTokens preserveRecent =
     (if length msgs \<le> preserveRecent then msgs
      else
        let recentMessages = slice_from_end preserveRecent msgs;
            currentTokens = countTokens E recentMessages
        in if real currentTokens > targetTokens
           then truncateContext E recentMessages targetTokens (max 1 (preserveRecent - 1))
           else backfill E targetTokens (rev (take (length msgs - preserveRecent) msgs))
                  recentMessages currentTokens)"
  by pat_completeness auto
termination
  by (relation "measure (\<lambda>(E, msgs, T, p). 2 * length msgs + (if p = 0 then 1 else 0))")
     (auto simp: slice_from_end_def)

subsection \<open>summarizeContext\<close>

definition generateSummary :: "'j env \<Rightarrow> 'j MessageParam list \<Rightarrow> string" where
  "generateSummary E msgs =
     (let contextText =
            join [newline, newline]
              (map (\<lambda>m. case content m of
                           Str s \<Rightarrow> role_name (role m) @ '': '' @ s
                         | Blocks bs \<Rightarrow> role_name (role m) @ '': '' @ stringify_content E bs)
                   msgs)
      in ''The following conversation has been summarized for context compression:''
         @ [newline] @ ''    '' @ [newline]
         @ ''Key Points:'' @ [newline]
         @ ''- '' @ show_nat (length (filter (\<lambda>m. role m = User) msgs))
         @ '' user messages'' @ [newline]
         @ ''- '' @ show_nat (length (filter (\<lambda>m. role m = Assistant) msgs))
         @ '' assistant responses'' @ [newline]
         @ ''- Main topics discussed: [Analysis of conversation topics would go here]''
         @ [newline, newline]
         @ ''Summary of conversation:'' @ [newline]
         @ take 2000 contextText @ ''... [Additional context available if needed]'')"

text \<open>The synthetic summary turn, a fresh object at address \<open>fresh\<close>.\<close>

definition summaryMessage :: "nat \<Rightarrow> string \<Rightarrow> 'j MessageParam" where
  "summaryMessage fresh summaryText =
     \<lparr>addr = fresh, role = User,
      content = Blocks [TextBlock (''[CONTEXT SUMMARY]'' @ [newline] @ summaryText
                                   @ [newline] @ ''[END SUMMARY]'')]\<rparr>"

text \<open>
  \<open>fresh\<close> is the first address that no message of the transcript uses. When the function
  recurses, the summary turn of the outer call is garbage, so its address is free again.
\<close>

partial_function (option) summarizeContext ::
  "'j env \<Rightarrow> nat \<Rightarrow> 'j MessageParam list \<Rightarrow> real \<Rightarrow> ('j MessageParam list \<times> string) option"
  where
  "summarizeContext E fresh msgs targetTokens =
     (let preserveCount = nat \<lfloor>real (length msgs) * 0.2\<rfloor>;
          toSummarize = slice_upto_end preserveCount msgs;
          preserved = slice_from_end preserveCount msgs;
          summaryText = generateSummary E toSummarize;
          compressedMessages = summaryMessage fresh summaryText # preserved
      in if real (countTokens E compressedMessages) > targetTokens
         then summarizeContext E fresh preserved targetTokens
         else Some (compressedMessages, summaryText))"

declare summarizeContext.simps [code]

subsection \<open>The turn classifier\<close>

definition errorKeywords :: "string list" where
  "errorKeywords = [''error'', ''exception'', ''failed'', ''failure'', ''invalid'', ''unable'']"

definition messageContainsError :: "'j env \<Rightarrow> 'j MessageParam \<Rightarrow> bool" where
  "messageContainsError E m =
     (let c = (case content m of Str s \<Rightarrow> s | Blocks bs \<Rightarrow> stringify_content E bs)
      in list_ex (\<lambda>keyword. str_includes (toLowerCase c) keyword) errorKeywords)"

definition messageHasToolUse :: "'j MessageParam \<Rightarrow> bool" where
  "messageHasToolUse m =
     (case content m of
        Str s \<Rightarrow> False
      | Blocks bs \<Rightarrow>
          list_ex (\<lambda>b. case b of ToolUseBlock i n inp \<Rightarrow> True
                            | ToolResultBlock i c \<Rightarrow> True
                            | _ \<Rightarrow> False) bs)"

subsection \<open>slidingWindowCompress\<close>

definition identifyImportantMessages :: "'j env \<Rightarrow> 'j MessageParam list \<Rightarrow> nat list" where
  "identifyImportantMessages E msgs =
     array_from_set
       (concat (map (\<lambda>(index, m).
                       (if role m = User then [index] else [])
                       @ (if messageContainsError E m then [index] else [])
                       @ (if index = 0 \<or> index = length msgs - 1 then [index] else []))
                    (enumerate 0 msgs)))"

text \<open>\<^verbatim>\<open>reduce\<close> without an initial value starts from the first element of the window.\<close>

definition selectRepresentative ::
  "'j env \<Rightarrow> 'j MessageParam list \<Rightarrow> 'j MessageParam option" where
  "selectRepresentative E window =
     (if length window = 0 then None
      else case find (\<lambda>m. role m = User) window of
        Some userMessage \<Rightarrow> Some userMessage
      | None \<Rightarrow>
          (case find (messageContainsError E) window of
             Some errorMessage \<Rightarrow> Some errorMessage
           | None \<Rightarrow>
               Some (fold (\<lambda>current shortest.
                             if countTokens E [current] < countTokens E [shortest]
                             then current else shortest)
                          (tl window) (hd window))))"

text \<open>The first loop: \<^verbatim>\<open>for (const idx of important)\<close>.\<close>

definition keep_important ::
  "'j env \<Rightarrow> 'j MessageParam list \<Rightarrow> real \<Rightarrow> nat list \<Rightarrow> 'j MessageParam list" where
  "keep_important E msgs targetTokens important =
     fold (\<lambda>idx result.
             if real (countTokens E (result @ [msgs ! idx])) \<le> targetTokens * 0.3
             then result @ [msgs ! idx] else result)
          important []"

text \<open>
  The second loop: \<^verbatim>\<open>for (let i = messages.length - 1; i >= 0; i -= stride)\<close>, where
  \<^verbatim>\<open>stride\<close> is the constant \<^verbatim>\<open>Math.max(1, Math.floor(windowSize * 0.5))\<close>.
\<close>

function window_scan ::
  "'j env \<Rightarrow> 'j MessageParam list \<Rightarrow> real \<Rightarrow> nat \<Rightarrow> int \<Rightarrow> 'j MessageParam list
     \<Rightarrow> 'j MessageParam list" where
  "window_scan E msgs targetTokens windowSize i result =
     (if i < 0 then result
      else
        let stride = max 1 (nat \<lfloor>real windowSize * 0.5\<rfloor>);
            window = slice (nat (max 0 (i - int windowSize))) (nat (i + 1)) msgs
        in case selectRepresentative E window of
             None \<Rightarrow> window_scan E msgs targetTokens windowSize (i - int stride) result
           | Some representative \<Rightarrow>
               if representative \<notin> set result
               then
                 let newResult = sort_key (indexOf msgs) (result @ [representative])
                 in if real (countTokens E newResult) \<le> targetTokens
                    then window_scan E msgs targetTokens windowSize (i - int stride)
                           (result @ [representative])
                    else result
               else window_scan E msgs targetTokens windowSize (i - int stride) result)"
  by pat_completeness auto
termination
  by (relation "measure (\<lambda>(E, msgs, T, w, i, result). nat (i + 1))") auto

definition slidingWindowCompress ::
  "'j env \<Rightarrow> 'j MessageParam list \<Rightarrow> real \<Rightarrow> 'j MessageParam list" where
  "slidingWindowCompress E msgs targetTokens =
     (let windowSize = nat \<lceil>real (length msgs) * 0.3\<rceil>;
          important = identifyImportantMessages E msgs;
          result = keep_important E msgs targetTokens important;
          result = window_scan E msgs targetTokens windowSize (int (length msgs) - 1) result
      in sort_key (indexOf msgs) result)"

subsection \<open>priorityBasedCompress\<close>

text \<open>The optional field \<^verbatim>\<open>timestamp\<close> is never written and is left out.\<close>

record 'j MessagePriority =
  message :: "'j MessageParam"
  priority :: real
  tokenCount :: nat
  isToolUse :: bool
  hasError :: bool

text \<open>
  The callback of \<^verbatim>\<open>messages.map\<close> in \<^verbatim>\<open>calculatePriorities\<close>; \<open>len\<close> is
  \<^verbatim>\<open>messages.length\<close>, and \<open>p0\<close> to \<open>p5\<close> are the successive values of \<^verbatim>\<open>priority\<close>.
\<close>

definition score_message ::
  "'j env \<Rightarrow> nat \<Rightarrow> nat \<Rightarrow> 'j MessageParam \<Rightarrow> 'j MessagePriority" where
  "score_message E len index m =
     (let p0 = 0 + (real index / real len) * 30;
          p1 = (if role m = User then p0 + 20 else p0);
          e = messageContainsError E m;
          p2 = (if e then p1 + 25 else p1);
          t = messageHasToolUse m;
          p3 = (if t then p2 + 10 else p2);
          p4 = (if index = 0 \<or> index = len - 1 then p3 + 15 else p3);
          n = countTokens E [m];
          p5 = (if n < 100 then p4 + 5 else if n > 1000 then p4 - 10 else p4)
      in \<lparr>message = m, priority = p5, tokenCount = n, isToolUse = t, hasError = e\<rparr>)"

definition calculatePriorities :: "'j env \<Rightarrow> 'j MessageParam list \<Rightarrow> 'j MessagePriority list"
  where
  "calculatePriorities E msgs =
     map (\<lambda>(index, m). score_message E (length msgs) index m) (enumerate 0 msgs)"

text \<open>
  The block loop of \<^verbatim>\<open>truncateMessage\<close>; \<^verbatim>\<open>r\<close> is the role of the message, \<open>fresh\<close> the
  address of the one-block message that is built for counting.
\<close>

fun truncate_blocks ::
  "'j env \<Rightarrow> nat \<Rightarrow> role \<Rightarrow> real \<Rightarrow> 'j block list \<Rightarrow> 'j block list \<Rightarrow> nat \<Rightarrow> 'j block list"
  where
  "truncate_blocks E fresh r maxTokens [] truncatedBlocks currentTokens = truncatedBlocks"
| "truncate_blocks E fresh r maxTokens (b # rest) truncatedBlocks currentTokens =
     (let blockTokens = countTokens E [\<lparr>addr = fresh, role = r, content = Blocks [b]\<rparr>]
      in if real (currentTokens + blockTokens) \<le> maxTokens
         then truncate_blocks E fresh r maxTokens rest (truncatedBlocks @ [b])
                (currentTokens + blockTokens)
         else case b of
           TextBlock t \<Rightarrow>
             if real currentTokens < maxTokens * 0.8
             then
               let remainingTokens = maxTokens - real currentTokens;
                   truncatedText =
                     take (nat \<lfloor>real (length t) * (remainingTokens / real blockTokens)\<rfloor>) t
               in truncatedBlocks @ [TextBlock (truncatedText @ ''... [TRUNCATED]'')]
             else truncate_blocks E fresh r maxTokens rest truncatedBlocks currentTokens
         | _ \<Rightarrow> truncate_blocks E fresh r maxTokens rest truncatedBlocks currentTokens)"

text \<open>\<^verbatim>\<open>{...message, content: c}\<close> is a new object: the role of \<open>m\<close>, the new content.\<close>

definition truncateMessage ::
  "'j env \<Rightarrow> nat \<Rightarrow> 'j MessageParam \<Rightarrow> real \<Rightarrow> 'j MessageParam option" where
  "truncateMessage E fresh m maxTokens =
     (case content m of
        Str s \<Rightarrow>
          let tokens = encode E s
          in if real (length tokens) \<le> maxTokens then Some m
             else
               let truncatedText =
                     take (nat \<lfloor>real (length s) * (maxTokens / real (length tokens))\<rfloor>) s
               in Some (m\<lparr>addr := fresh, content := Str (truncatedText @ ''... [TRUNCATED]'')\<rparr>)
      | Blocks bs \<Rightarrow>
          let truncatedBlocks = truncate_blocks E fresh (role m) maxTokens bs [] 0
          in if length truncatedBlocks > 0
             then Some (m\<lparr>addr := fresh, content := Blocks truncatedBlocks\<rparr>)
             else None)"

text \<open>
  The loop \<^verbatim>\<open>for (const item of priorities)\<close>, with the state \<^verbatim>\<open>result\<close>,
  \<^verbatim>\<open>currentTokens\<close> and the next free address.
\<close>

fun priority_scan ::
  "'j env \<Rightarrow> real \<Rightarrow> 'j MessagePriority list \<Rightarrow> 'j MessageParam list \<Rightarrow> nat \<Rightarrow> nat
     \<Rightarrow> 'j MessageParam list" where
  "priority_scan E targetTokens [] result currentTokens fresh = result"
| "priority_scan E targetTokens (item # items) result currentTokens fresh =
     (if real (currentTokens + tokenCount item) \<le> targetTokens
      then priority_scan E targetTokens items (result @ [message item])
             (currentTokens + tokenCount item) fresh
      else if real currentTokens < targetTokens * 0.5
      then
        (case truncateMessage E fresh (message item) (targetTokens - real currentTokens) of
           Some truncated \<Rightarrow>
             priority_scan E targetTokens items (result @ [truncated])
               (countTokens E (result @ [truncated])) (Suc fresh)
         | None \<Rightarrow> priority_scan E targetTokens items result currentTokens fresh)
      else priority_scan E targetTokens items result currentTokens fresh)"

text \<open>
  \<^verbatim>\<open>Array.prototype.sort\<close> is stable, as \<open>sort_key\<close> is; the comparator
  \<^verbatim>\<open>b.priority - a.priority\<close> orders by descending priority.
\<close>

definition priorityBasedCompress ::
  "'j env \<Rightarrow> nat \<Rightarrow> 'j MessageParam list \<Rightarrow> real \<Rightarrow> 'j MessageParam list" where
  "priorityBasedCompress E fresh msgs targetTokens =
     (let priorities = sort_key (\<lambda>p. - priority p) (calculatePriorities E msgs);
          result = priority_scan E targetTokens priorities [] 0 fresh
      in sort_key (indexOf msgs) result)"

subsection \<open>compressContext\<close>

text \<open>
  \<open>fresh\<close> is the first address not used by a message of the transcript. The default value
  of \<^verbatim>\<open>modelContextWindow\<close> is \<open>DEFAULT_MAX_TOKENS\<close>; the default \<open>5\<close> of
  \<^verbatim>\<open>preserveRecent\<close> applies when the descriptor leaves the field out. The
  \<^verbatim>\<open>default\<close> branch of the switch needs a \<^verbatim>\<open>type\<close> outside the four of the interface.
  The result is \<open>None\<close> when the strategy does not return.
\<close>

definition compressContext ::
  "'j env \<Rightarrow> nat \<Rightarrow> 'j MessageParam list \<Rightarrow> CompressionStrategy \<Rightarrow> real
     \<Rightarrow> 'j CompressedContext option" where
  "compressContext E fresh msgs strat modelContextWindow =
     (let original = countTokens E msgs;
          targetTokens = min (smaxTokens strat) (modelContextWindow * COMPRESSION_THRESHOLD)
      in if real original \<le> targetTokens
         then Some \<lparr>messages = msgs, summary = None, compressionRatio = Finite 1,
                    originalTokenCount = original, compressedTokenCount = original,
                    strategy = strat\<rparr>
         else
           case (case stype strat of
                   Summarize \<Rightarrow>
                     map_option (\<lambda>(ms, s). (ms, Some s))
                       (summarizeContext E fresh msgs targetTokens)
                 | Truncate \<Rightarrow>
                     Some (truncateContext E msgs targetTokens
                             (case spreserveRecent strat of None \<Rightarrow> 5 | Some p \<Rightarrow> p),
                           None)
                 | SlidingWindow \<Rightarrow> Some (slidingWindowCompress E msgs targetTokens, None)
                 | PriorityBased \<Rightarrow>
                     Some (priorityBasedCompress E fresh msgs targetTokens, None))
           of
             None \<Rightarrow> None
           | Some (compressedMessages, summaryText) \<Rightarrow>
               let compressed = countTokens E compressedMessages
               in Some \<lparr>messages = compressedMessages, summary = summaryText,
                         compressionRatio = js_divide compressed original,
                         originalTokenCount = original, compressedTokenCount = compressed,
                         strategy = strat\<rparr>)"

subsection \<open>Well-formed transcripts\<close>

text \<open>
  The array holds pairwise different objects, all allocated below the address \<open>fresh\<close>.
\<close>

definition distinct_objects :: "nat \<Rightarrow> 'j MessageParam list \<Rightarrow> bool" where
  "distinct_objects fresh msgs \<longleftrightarrow>
     distinct (map addr msgs) \<and> list_all (\<lambda>m. addr m < fresh) msgs"

subsection \<open>Inputs for worked examples\<close>

text \<open>
  A tokenizer for the examples: one token per character. The examples use text turns
  only, so the serializer is never asked.
\<close>

definition example_env :: "unit env" where
  "example_env = \<lparr>encode = map of_char, stringify = (\<lambda>d. []), stringify_content = (\<lambda>bs. [])\<rparr>"

definition text_message :: "nat \<Rightarrow> role \<Rightarrow> string \<Rightarrow> unit MessageParam" where
  "text_message a r s = \<lparr>addr = a, role = r, content = Str s\<rparr>"

text \<open>Two turns of ten tokens each.\<close>

definition two_turns :: "unit MessageParam list" where
  "two_turns = [text_message 0 User ''0123456789'', text_message 1 Assistant ''abcdefghij'']"


text \<open>A user turn of 2 tokens, then an assistant turn of 20 tokens.\<close>

definition short_then_long :: "unit MessageParam list" where
  "short_then_long =
     [text_message 0 User ''hi'', text_message 1 Assistant ''aaaaaaaaaaaaaaaaaaaa'']"

text \<open>The text of the turns that the test suite of the repository builds.\<close>

definition long_turn :: "unit MessageParam" where
  "long_turn =
     text_message 0 User
       ''Message 0: This is a test message with some content to make it meaningful''"

definition summarize_100 :: CompressionStrategy where
  "summarize_100 =
     \<lparr>stype = Summarize, smaxTokens = 100, spreserveRecent = None, spreserveImportant = None\<rparr>"

definition summarize_10 :: CompressionStrategy where
  "summarize_10 =
     \<lparr>stype = Summarize, smaxTokens = 10, spreserveRecent = None, spreserveImportant = None\<rparr>"


text \<open>Three turns of ten tokens each, and five turns of 120 tokens each.\<close>

definition three_turns :: "unit MessageParam list" where
  "three_turns =
     [text_message 0 User ''0123456789'', text_message 1 Assistant ''abcdefghij'',
      text_message 2 User ''klmnopqrst'']"


definition truncate_15 :: CompressionStrategy where
  "truncate_15 =
     \<lparr>stype = Truncate, smaxTokens = 15, spreserveRecent = None, spreserveImportant = None\<rparr>"


definition priority_10 :: CompressionStrategy where
  "priority_10 =
     \<lparr>stype = PriorityBased, smaxTokens = 10, spreserveRecent = None,
      spreserveImportant = None\<rparr>"


section \<open>Properties\<close>

declare truncateContext.simps [simp del]

declare window_scan.simps [simp del]

declare show_nat.simps [simp del]

subsection \<open>The token estimator\<close>

lemma fold_add_block_tokens:
  "fold (add_block_tokens E) bs n = n + fold (add_block_tokens E) bs 0"
proof (induction bs arbitrary: n)
  case Nil
  show ?case by simp
next
  case (Cons b bs)
  have step: "add_block_tokens E b n = n + add_block_tokens E b 0"
    by (cases b) simp_all
  show ?case
    using Cons.IH [of "add_block_tokens E b n"] Cons.IH [of "add_block_tokens E b 0"] step
    by simp
qed

lemma add_message_tokens_shift:
  "add_message_tokens E m n = n + add_message_tokens E m 0"
  using fold_add_block_tokens [of E _ n]
  by (simp add: add_message_tokens_def split: content.split)

lemma fold_add_message_tokens:
  "fold (add_message_tokens E) ms n = n + countTokens E ms"
proof (induction ms arbitrary: n)
  case Nil
  show ?case by (simp add: countTokens_def)
next
  case (Cons m ms)
  show ?case
    using Cons.IH [of "add_message_tokens E m n"] Cons.IH [of "add_message_tokens E m 0"]
      add_message_tokens_shift [of E m n]
    by (simp add: countTokens_def)
qed

lemma countTokens_Nil: "countTokens E [] = 0"
  by (simp add: countTokens_def)

lemma countTokens_append:
  "countTokens E (a @ b) = countTokens E a + countTokens E b"
  using fold_add_message_tokens [of E b "countTokens E a"]
  by (simp add: countTokens_def)

lemma countTokens_Cons:
  "countTokens E (m # ms) = countTokens E [m] + countTokens E ms"
  using countTokens_append [of E "[m]" ms] by simp

text \<open>
  Claim C5. The token estimator is additive and non-negative: counting a concatenation
  gives the sum of the two counts, and no count is below zero.
\<close>

theorem countTokens_additive_nonneg:
  "countTokens E (a @ b) = countTokens E a + countTokens E b \<and> 0 \<le> int (countTokens E m)"
  by (simp add: countTokens_append)

subsection \<open>Overflow detection\<close>

text \<open>
  Claim C6. \<^verbatim>\<open>detectContextOverflow\<close> answers true exactly when the current token count
  has reached 75 percent of the model's context window; 750 of 1000 is an overflow, 500 of
  1000 is not.
\<close>

theorem detectContextOverflow_threshold:
  "(detectContextOverflow currentTokens modelContextWindow
      \<longleftrightarrow> currentTokens \<ge> modelContextWindow * 0.75)
   \<and> detectContextOverflow 750 1000
   \<and> \<not> detectContextOverflow 500 1000"
  by (simp add: detectContextOverflow_def COMPRESSION_THRESHOLD_def)

subsection \<open>truncateContext\<close>

lemma countTokens_single_le_last:
  "xs \<noteq> [] \<Longrightarrow> countTokens E [last xs] \<le> countTokens E xs"
  using countTokens_append [of E "butlast xs" "[last xs]"] by simp



lemma backfill_not_Nil:
  "result \<noteq> [] \<Longrightarrow> backfill E T older result cur \<noteq> []"
  by (induction older arbitrary: result cur) (simp_all add: Let_def)

lemma backfill_bound:
  "real cur \<le> T \<Longrightarrow> cur = countTokens E result
     \<Longrightarrow> real (countTokens E (backfill E T older result cur)) \<le> T"
proof (induction older arbitrary: result cur)
  case Nil
  then show ?case by simp
next
  case (Cons m older)
  show ?case
  proof (cases "real (cur + countTokens E [m]) \<le> T")
    case True
    have "cur + countTokens E [m] = countTokens E (m # result)"
      using Cons.prems(2) countTokens_Cons [of E m result] by simp
    from Cons.IH [OF True this] True show ?thesis by (simp add: Let_def)
  next
    case False
    with Cons.prems show ?thesis by (simp add: Let_def)
  qed
qed











text \<open>
  Claim C9. A transcript with at most \<open>preserveRecent\<close> turns comes back unchanged, for
  every budget, also one below the token count of the transcript.
\<close>

theorem truncateContext_short_unchanged:
  "length msgs \<le> preserveRecent
     \<Longrightarrow> truncateContext E msgs targetTokens preserveRecent = msgs"
  by (simp add: truncateContext.simps)

theorem truncateContext_short_unchanged_witness:
  "length two_turns \<le> 5
   \<and> \<not> real (countTokens example_env two_turns) \<le> 15
   \<and> truncateContext example_env two_turns 15 5 = two_turns"
proof -
  have h: "length two_turns \<le> 5" by (simp add: two_turns_def)
  have over: "\<not> real (countTokens example_env two_turns) \<le> 15" by code_simp
  show ?thesis
    using h over truncateContext_short_unchanged [OF h, of example_env 15] by simp
qed

text \<open>
  Beyond the guard: for a transcript with more than \<open>preserveRecent\<close> turns the output
  is not empty, it fits the budget whenever the most recent turn fits it, and it is that
  turn alone when the most recent turn does not fit.
\<close>

lemma truncateContext_long_transcript:
  "p < length msgs \<Longrightarrow>
     truncateContext E msgs T p \<noteq> []
     \<and> (real (countTokens E [last msgs]) \<le> T
          \<longrightarrow> real (countTokens E (truncateContext E msgs T p)) \<le> T)
     \<and> (real (countTokens E [last msgs]) > T
          \<longrightarrow> truncateContext E msgs T p = [last msgs])"
proof (induction E msgs T p rule: truncateContext.induct)
  case (1 E msgs T p)
  let ?recent = "slice_from_end p msgs"
  let ?older = "rev (take (length msgs - p) msgs)"
  let ?p' = "max 1 (p - 1)"
  from "1.prems" have short: "\<not> length msgs \<le> p" and ne: "msgs \<noteq> []" by auto
  have rne: "?recent \<noteq> []" using "1.prems" by (auto simp: slice_from_end_def)
  have rlast: "last ?recent = last msgs"
    using "1.prems" by (auto simp: slice_from_end_def)
  have rlen: "length ?recent = (if p = 0 then length msgs else p)"
    using "1.prems" by (auto simp: slice_from_end_def)
  show ?case
  proof (cases "real (countTokens E ?recent) > T")
    case over: True
    have eq: "truncateContext E msgs T p = truncateContext E ?recent T ?p'"
      using short over by (simp add: truncateContext.simps [of E msgs] Let_def)
    show ?thesis
    proof (cases "?p' < length ?recent")
      case True
      from "1.IH" [OF short refl refl over True] eq rlast show ?thesis by simp
    next
      case False
      then have one: "length ?recent = 1" using rlen rne
        by (cases ?recent) (auto split: if_splits)
      then have single: "?recent = [last msgs]"
        using rlast by (cases ?recent) auto
      from False have le: "length ?recent \<le> ?p'" by linarith
      have "truncateContext E ?recent T ?p' = ?recent"
        by (subst truncateContext.simps) (simp only: le if_True)
      with eq single over show ?thesis by simp
    qed
  next
    case False
    then have eq: "truncateContext E msgs T p
                     = backfill E T ?older ?recent (countTokens E ?recent)"
      using short by (simp add: truncateContext.simps [of E msgs] Let_def)
    have "real (countTokens E (backfill E T ?older ?recent (countTokens E ?recent))) \<le> T"
      using False by (intro backfill_bound) simp_all
    moreover have "countTokens E [last msgs] \<le> countTokens E ?recent"
      using countTokens_single_le_last [OF rne, of E] rlast by simp
    ultimately show ?thesis
      using eq backfill_not_Nil [OF rne, of E T ?older] False by simp
  qed
qed

text \<open>
  Claim C1 fails on the code. The guard \<^verbatim>\<open>messages.length <= preserveRecent\<close>, which ends
  the shrinking recursion, also answers the first call, before any budget test: two turns
  of ten tokens with the budget 15 (and the default \<open>preserveRecent = 5\<close>) come back whole,
  with 20 tokens, although the budget holds either turn; so does \<open>compressContext\<close>. The
  sibling path keeps the budget: with a third turn in front and \<open>preserveRecent = 2\<close> the
  same two recent turns are cut down to the last one.
\<close>

theorem truncateContext_short_transcript_over_budget:
  "real (countTokens example_env [two_turns ! 0]) \<le> 15
   \<and> real (countTokens example_env [two_turns ! 1]) \<le> 15
   \<and> truncateContext example_env two_turns 15 5 = two_turns
   \<and> \<not> real (countTokens example_env (truncateContext example_env two_turns 15 5)) \<le> 15
   \<and> map_option compressedTokenCount
         (compressContext example_env 2 two_turns truncate_15 DEFAULT_MAX_TOKENS) = Some 20
   \<and> truncateContext example_env three_turns 15 2 = [three_turns ! 2]
   \<and> truncateContext example_env [three_turns ! 1, three_turns ! 2] 15 2
       = [three_turns ! 1, three_turns ! 2]"
  by code_simp

subsection \<open>summarizeContext\<close>

lemma preserveCount_div: "nat \<lfloor>real n * 0.2\<rfloor> = n div 5"
proof -
  have "real n * 0.2 = real n / real 5" by simp
  then have "\<lfloor>real n * 0.2\<rfloor> = int (n div 5)"
    by (simp only: floor_divide_of_nat_eq)
  then show ?thesis by simp
qed

lemma summarizeContext_same_input:
  assumes short: "length msgs < 5"
    and over: "real (countTokens E (summaryMessage fresh (generateSummary E []) # msgs)) > T"
  shows "summarizeContext E fresh msgs T = None"
proof (rule ccontr)
  assume "summarizeContext E fresh msgs T \<noteq> None"
  then obtain y where y: "summarizeContext E fresh msgs T = Some y" by auto
  let ?stuck = "\<lambda>E fresh msgs T (y :: 'a MessageParam list \<times> string).
      length msgs < 5
      \<and> real (countTokens E (summaryMessage fresh (generateSummary E []) # msgs)) > T"
  have "\<not> ?stuck E fresh msgs T y"
  proof (rule summarizeContext.raw_induct [where P = "\<lambda>E fresh msgs T y. \<not> ?stuck E fresh msgs T y", OF _ y])
    fix f E fresh msgs T and y :: "'a MessageParam list \<times> string"
    assume IH: "\<And>E fresh msgs T y. f E fresh msgs T = Some y \<Longrightarrow> \<not> ?stuck E fresh msgs T y"
      and body: "(let preserveCount = nat \<lfloor>real (length msgs) * (2 / 10)\<rfloor>;
          toSummarize = slice_upto_end preserveCount msgs;
          preserved = slice_from_end preserveCount msgs;
          summaryText = generateSummary E toSummarize;
          compressedMessages = summaryMessage fresh summaryText # preserved
      in if T < real (countTokens E compressedMessages)
         then f E fresh preserved T
         else Some (compressedMessages, summaryText)) = Some y"
    show "\<not> ?stuck E fresh msgs T y"
    proof
      assume c: "?stuck E fresh msgs T y"
      then have "nat \<lfloor>real (length msgs) * (2 / 10)\<rfloor> = 0"
        using preserveCount_div [of "length msgs"] by simp
      with c body have "f E fresh msgs T = Some y"
        by (simp add: Let_def slice_upto_end_def slice_from_end_def)
      from IH [OF this] c show False by simp
    qed
  qed
  with short over show False by simp
qed

lemma summarizeContext_short_over_budget:
  assumes "length msgs < 5" and "real (countTokens E msgs) > T"
  shows "summarizeContext E fresh msgs T = None"
proof -
  have "countTokens E msgs \<le> countTokens E (summaryMessage fresh (generateSummary E []) # msgs)"
    using countTokens_Cons [of E "summaryMessage fresh (generateSummary E [])" msgs] by simp
  with assms(2) have "real (countTokens E (summaryMessage fresh (generateSummary E []) # msgs)) > T"
    by linarith
  with assms(1) show ?thesis by (rule summarizeContext_same_input)
qed

text \<open>
  Claim C2 fails on the code: for a transcript of fewer than five turns,
  \<^verbatim>\<open>Math.floor(messages.length * 0.2)\<close> is \<open>0\<close> and \<^verbatim>\<open>messages.slice(-0)\<close> is the whole
  transcript, so the recursive call gets the input of the call that makes it. One turn of
  73 tokens and a budget of 10 tokens: the strategy never returns, and neither does
  \<open>compressContext\<close>.
\<close>

theorem summarizeContext_never_returns:
  "slice_from_end (nat \<lfloor>real (length [long_turn]) * 0.2\<rfloor>) [long_turn] = [long_turn]
   \<and> summarizeContext example_env 1 [long_turn] 10 = None
   \<and> compressContext example_env 1 [long_turn] summarize_10 DEFAULT_MAX_TOKENS = None"
proof -
  have same: "slice_from_end (nat \<lfloor>real (length [long_turn]) * 0.2\<rfloor>) [long_turn]
                = [long_turn]"
    by (simp add: slice_from_end_def)
  have short: "length [long_turn] < 5" by simp
  have over: "real (countTokens example_env [long_turn]) > 10" by code_simp
  have stuck: "summarizeContext example_env 1 [long_turn] 10 = None"
    using short over by (rule summarizeContext_short_over_budget)
  have target: "min (smaxTokens summarize_10) (DEFAULT_MAX_TOKENS * COMPRESSION_THRESHOLD) = 10"
    by (simp add: summarize_10_def DEFAULT_MAX_TOKENS_def COMPRESSION_THRESHOLD_def)
  have "compressContext example_env 1 [long_turn] summarize_10 DEFAULT_MAX_TOKENS = None"
    unfolding compressContext_def Let_def target using over stuck
    by (simp add: summarize_10_def)
  with same stuck show ?thesis by simp
qed

subsection \<open>Budget monotonicity\<close>






subsection \<open>compressContext\<close>

text \<open>
  Claim C4. When the token count of the transcript is at most
  \<open>min (maxTokens, modelContextWindow * 0.75)\<close>, \<open>compressContext\<close> returns the transcript
  itself, the ratio \<open>1\<close> and equal token counts, for every strategy descriptor; no summary
  is produced. The witness is an input on which the requested strategy would not return,
  so the strategy is not run.
\<close>

theorem compressContext_noop:
  "real (countTokens E msgs) \<le> min (smaxTokens strat) (modelContextWindow * 0.75)
     \<Longrightarrow> compressContext E fresh msgs strat modelContextWindow
           = Some \<lparr>messages = msgs, summary = None, compressionRatio = Finite 1,
                    originalTokenCount = countTokens E msgs,
                    compressedTokenCount = countTokens E msgs, strategy = strat\<rparr>"
  by (simp add: compressContext_def COMPRESSION_THRESHOLD_def Let_def)

theorem compressContext_noop_witness:
  "real (countTokens example_env two_turns) \<le> min (smaxTokens summarize_100) (1000 * 0.75)
   \<and> summarizeContext example_env 2 two_turns 100 = None
   \<and> compressContext example_env 2 two_turns summarize_100 1000
       = Some \<lparr>messages = two_turns, summary = None, compressionRatio = Finite 1,
                originalTokenCount = countTokens example_env two_turns,
                compressedTokenCount = countTokens example_env two_turns,
                strategy = summarize_100\<rparr>"
proof -
  have h: "real (countTokens example_env two_turns)
             \<le> min (smaxTokens summarize_100) (1000 * 0.75)"
    by code_simp
  have short: "length two_turns < 5" by (simp add: two_turns_def)
  have over: "real (countTokens example_env
                 (summaryMessage 2 (generateSummary example_env []) # two_turns)) > 100"
    by code_simp
  have stuck: "summarizeContext example_env 2 two_turns 100 = None"
    using short over by (rule summarizeContext_same_input)
  show ?thesis
    using h stuck compressContext_noop [OF h, of 2] by simp
qed

subsection \<open>slidingWindowCompress\<close>

text \<open>
  Claim C10. The sliding window can return no turn at all for a non-empty transcript and
  a positive budget: it does so for every transcript of one turn that is larger than
  the budget.
\<close>

theorem slidingWindowCompress_single_oversized_empty: 
  assumes "0 < T" "real (countTokens E [m]) > T"
  shows "slidingWindowCompress E [m] T = []"
proof -
  have imp: "identifyImportantMessages E [m] = [0]"
    by (simp add: identifyImportantMessages_def array_from_set_def)
  have "\<not> real (countTokens E [m]) \<le> T * 0.3" using assms by simp
  then have keep: "keep_important E [m] T [0] = []"
    by (simp add: keep_important_def)
  have rep: "selectRepresentative E [m] = Some m"
    by (simp add: selectRepresentative_def split: option.split)
  have scan: "window_scan E [m] T 1 0 [] = []"
    using assms rep by (subst window_scan.simps) (simp add: slice_def Let_def)
  have w: "nat \<lceil>real (length [m]) * 0.3\<rceil> = 1" by simp
  show ?thesis
    unfolding slidingWindowCompress_def Let_def imp keep w using scan by simp
qed

theorem slidingWindowCompress_single_oversized_empty_witness:
  "(0 :: real) < 10
   \<and> real (countTokens example_env [long_turn]) > 10
   \<and> [long_turn] \<noteq> []
   \<and> slidingWindowCompress example_env [long_turn] 10 = []"
proof -
  have h: "(0 :: real) < 10" by simp
  have over: "real (countTokens example_env [long_turn]) > 10" by code_simp
  show ?thesis
    using h over slidingWindowCompress_single_oversized_empty [OF h over] by simp
qed

subsection \<open>No turn twice\<close>

lemma array_from_set_fold:
  "distinct acc \<Longrightarrow>
     distinct (fold (\<lambda>x seen. if x \<in> set seen then seen else seen @ [x]) xs acc)
     \<and> set (fold (\<lambda>x seen. if x \<in> set seen then seen else seen @ [x]) xs acc)
         = set acc \<union> set xs"
  by (induction xs arbitrary: acc) auto

lemma distinct_array_from_set: "distinct (array_from_set xs)"
  using array_from_set_fold [of "[]" xs] by (simp add: array_from_set_def)

lemma set_array_from_set: "set (array_from_set xs) = set xs"
  using array_from_set_fold [of "[]" xs] by (simp add: array_from_set_def)

lemma identifyImportantMessages_range:
  "idx \<in> set (identifyImportantMessages E msgs) \<Longrightarrow> idx < length msgs"
  by (auto simp: identifyImportantMessages_def set_array_from_set in_set_enumerate_eq
      split: if_splits)

lemma distinct_identifyImportantMessages: "distinct (identifyImportantMessages E msgs)"
  by (simp add: identifyImportantMessages_def distinct_array_from_set)

lemma fold_shortest_in_set:
  "fold (\<lambda>current shortest.
           if countTokens E [current] < countTokens E [shortest] then current else shortest)
        xs x \<in> set (x # xs)"
  by (induction xs arbitrary: x) auto

lemma selectRepresentative_in_window:
  "selectRepresentative E window = Some r \<Longrightarrow> r \<in> set window"
proof -
  assume a: "selectRepresentative E window = Some r"
  then have ne: "window \<noteq> []" by (auto simp: selectRepresentative_def)
  then have "set (hd window # tl window) = set window" by (cases window) auto
  with a ne fold_shortest_in_set [of E "tl window" "hd window"] show ?thesis
    by (auto simp: selectRepresentative_def find_Some_iff split: option.splits)
qed

lemma set_slice: "set (slice a b xs) \<subseteq> set xs"
  by (auto simp: slice_def dest: in_set_takeD in_set_dropD)

lemma keep_important_fold:
  "distinct important \<Longrightarrow>
   \<exists>js. distinct js \<and> set js \<subseteq> set important
     \<and> fold (\<lambda>idx result.
             if real (countTokens E (result @ [msgs ! idx])) \<le> T * 0.3
             then result @ [msgs ! idx] else result) important acc
         = acc @ map (\<lambda>i. msgs ! i) js"
proof (induction important arbitrary: acc)
  case Nil
  show ?case by simp
next
  case (Cons idx important)
  let ?step = "\<lambda>idx result.
             if real (countTokens E (result @ [msgs ! idx])) \<le> T * 0.3
             then result @ [msgs ! idx] else result"
  from Cons.prems have d: "distinct important" and new: "idx \<notin> set important" by simp_all
  from Cons.IH [OF d, of "?step idx acc"] obtain js
    where js: "distinct js" "set js \<subseteq> set important"
      and eq: "fold ?step important (?step idx acc) = ?step idx acc @ map (\<lambda>i. msgs ! i) js"
    by blast
  show ?case
  proof (cases "real (countTokens E (acc @ [msgs ! idx])) \<le> T * 0.3")
    case True
    have "distinct (idx # js)" "set (idx # js) \<subseteq> set (idx # important)"
      using js new by auto
    moreover have "fold ?step (idx # important) acc = acc @ map (\<lambda>i. msgs ! i) (idx # js)"
      using eq True by simp
    ultimately show ?thesis by blast
  next
    case False
    have "set js \<subseteq> set (idx # important)" using js by auto
    moreover have "fold ?step (idx # important) acc = acc @ map (\<lambda>i. msgs ! i) js"
      using eq False by simp
    ultimately show ?thesis using js(1) by blast
  qed
qed

lemma keep_important_distinct:
  assumes "distinct msgs"
  shows "distinct (keep_important E msgs T (identifyImportantMessages E msgs))
         \<and> set (keep_important E msgs T (identifyImportantMessages E msgs)) \<subseteq> set msgs"
proof -
  from keep_important_fold [OF distinct_identifyImportantMessages, where E1 = E and msgs1 = msgs and E = E and msgs = msgs and T = T and acc = "[]"]
  obtain js where d: "distinct js" and js: "set js \<subseteq> set (identifyImportantMessages E msgs)"
    and eq: "keep_important E msgs T (identifyImportantMessages E msgs)
               = map (\<lambda>i. msgs ! i) js"
    by (auto simp: keep_important_def)
  have r: "\<forall>j \<in> set js. j < length msgs"
    using js identifyImportantMessages_range [of _ E msgs] by blast
  have "inj_on (\<lambda>i. msgs ! i) (set js)"
    using assms r by (simp add: inj_on_def nth_eq_iff_index_eq)
  with d have "distinct (map (\<lambda>i. msgs ! i) js)" by (simp add: distinct_map)
  moreover have "set (map (\<lambda>i. msgs ! i) js) \<subseteq> set msgs" using r by auto
  ultimately show ?thesis using eq by simp
qed

lemma window_scan_distinct:
  "distinct result \<Longrightarrow> set result \<subseteq> set msgs
     \<Longrightarrow> distinct (window_scan E msgs T w i result)
         \<and> set (window_scan E msgs T w i result) \<subseteq> set msgs"
proof (induction E msgs T w i result rule: window_scan.induct)
  case (1 E msgs T w i result)
  let ?stride = "max 1 (nat \<lfloor>real w * 0.5\<rfloor>)"
  let ?window = "slice (nat (max 0 (i - int w))) (nat (i + 1)) msgs"
  show ?case
  proof (cases "i < 0")
    case True
    then have "window_scan E msgs T w i result = result"
      by (subst window_scan.simps) simp
    with "1.prems" show ?thesis by simp
  next
    case pos: False
    show ?thesis
    proof (cases "selectRepresentative E ?window")
      case None
      have "window_scan E msgs T w i result = window_scan E msgs T w (i - int ?stride) result"
        using pos None by (subst window_scan.simps) (simp add: Let_def)
      with "1.IH"(1) [OF pos refl refl None "1.prems"] show ?thesis by simp
    next
      case (Some r)
      have rin: "r \<in> set msgs"
        using selectRepresentative_in_window [OF Some] set_slice by fastforce
      show ?thesis
      proof (cases "r \<in> set result")
        case True
        have "window_scan E msgs T w i result = window_scan E msgs T w (i - int ?stride) result"
          using pos Some True by (subst window_scan.simps) (simp add: Let_def)
        with "1.IH"(3) [OF pos refl refl Some _ "1.prems"] True show ?thesis by simp
      next
        case new: False
        show ?thesis
        proof (cases "real (countTokens E (sort_key (indexOf msgs) (result @ [r]))) \<le> T")
          case True
          have d: "distinct (result @ [r])" and s: "set (result @ [r]) \<subseteq> set msgs"
            using new rin "1.prems" by auto
          have "window_scan E msgs T w i result
                  = window_scan E msgs T w (i - int ?stride) (result @ [r])"
            using pos Some new True by (subst window_scan.simps) (simp add: Let_def)
          with "1.IH"(2) [OF pos refl refl Some new refl True d s] show ?thesis by simp
        next
          case False
          have "window_scan E msgs T w i result = result"
            using pos Some new False by (subst window_scan.simps) (simp add: Let_def)
          with "1.prems" show ?thesis by simp
        qed
      qed
    qed
  qed
qed

lemma slidingWindowCompress_distinct:
  assumes "distinct msgs"
  shows "distinct (slidingWindowCompress E msgs T)
         \<and> set (slidingWindowCompress E msgs T) \<subseteq> set msgs"
proof -
  from keep_important_distinct [OF assms, of E T]
  have "distinct (keep_important E msgs T (identifyImportantMessages E msgs))"
    and "set (keep_important E msgs T (identifyImportantMessages E msgs)) \<subseteq> set msgs"
    by simp_all
  from window_scan_distinct [OF this] show ?thesis
    by (simp add: slidingWindowCompress_def Let_def)
qed

lemma distinct_map_sort_key:
  "distinct (map g (sort_key f xs)) = distinct (map g xs)"
  by (simp add: distinct_map)

lemma message_score_message: "message (score_message E len index m) = m"
  by (simp add: score_message_def Let_def)

lemma map_message_calculatePriorities:
  "map message (calculatePriorities E msgs) = msgs"
proof -
  have "map message (calculatePriorities E msgs) = map snd (enumerate 0 msgs)"
    by (simp add: calculatePriorities_def split_def comp_def message_score_message)
  then show ?thesis by simp
qed

lemma truncateMessage_addr:
  "truncateMessage E fresh m k = Some t \<Longrightarrow> t = m \<or> addr t = fresh"
  by (auto simp: truncateMessage_def Let_def split: content.splits if_splits)

lemma priority_scan_distinct:
  "distinct (map addr result @ map (\<lambda>p. addr (message p)) items)
     \<Longrightarrow> \<forall>a \<in> set (map addr result @ map (\<lambda>p. addr (message p)) items). a < fresh
     \<Longrightarrow> distinct (map addr (priority_scan E T items result cur fresh))"
proof (induction items arbitrary: result cur fresh)
  case Nil
  then show ?case by simp
next
  case (Cons item items)
  let ?rest = "map (\<lambda>p. addr (message p)) items"
  from Cons.prems(1) have keep:
      "distinct (map addr (result @ [message item]) @ ?rest)"
    and skip: "distinct (map addr result @ ?rest)"
    by auto
  from Cons.prems(2) have keep_lt:
      "\<forall>a \<in> set (map addr (result @ [message item]) @ ?rest). a < fresh"
    and skip_lt: "\<forall>a \<in> set (map addr result @ ?rest). a < fresh"
    by auto
  show ?case
  proof (cases "real (cur + tokenCount item) \<le> T")
    case True
    with Cons.IH [OF keep keep_lt] show ?thesis by simp
  next
    case over: False
    show ?thesis
    proof (cases "real cur < T * 0.5")
      case half: True
      show ?thesis
      proof (cases "truncateMessage E fresh (message item) (T - real cur)")
        case None
        with over half Cons.IH [OF skip skip_lt] show ?thesis by simp
      next
        case (Some t)
        have d: "distinct (map addr (result @ [t]) @ ?rest)"
          and lt: "\<forall>a \<in> set (map addr (result @ [t]) @ ?rest). a < Suc fresh"
        proof -
          from truncateMessage_addr [OF Some] show "distinct (map addr (result @ [t]) @ ?rest)"
          proof
            assume "t = message item"
            with keep show ?thesis by simp
          next
            assume "addr t = fresh"
            with skip skip_lt show ?thesis by auto
          qed
          from truncateMessage_addr [OF Some]
          show "\<forall>a \<in> set (map addr (result @ [t]) @ ?rest). a < Suc fresh"
          proof
            assume "t = message item"
            with keep_lt show ?thesis by (auto simp: less_Suc_eq)
          next
            assume "addr t = fresh"
            with skip_lt show ?thesis by (auto simp: less_Suc_eq)
          qed
        qed
        from over half Some Cons.IH [OF d lt] show ?thesis by simp
      qed
    next
      case False
      with over Cons.IH [OF skip skip_lt] show ?thesis by simp
    qed
  qed
qed

lemma priorityBasedCompress_distinct:
  assumes "distinct (map addr msgs)" and "\<forall>m \<in> set msgs. addr m < fresh"
  shows "distinct (map addr (priorityBasedCompress E fresh msgs T))"
proof -
  let ?ps = "sort_key (\<lambda>p. - priority p) (calculatePriorities E msgs)"
  have m: "map (\<lambda>p. addr (message p)) (calculatePriorities E msgs) = map addr msgs"
    using map_message_calculatePriorities [of E msgs]
    by (metis (no_types, lifting) map_map comp_apply map_eq_conv)
  have d: "distinct (map addr [] @ map (\<lambda>p. addr (message p)) ?ps)"
    using assms(1) m by (simp add: distinct_map_sort_key)
  have "set (map (\<lambda>p. addr (message p)) ?ps) = set (map addr msgs)"
    using m by (metis set_map set_sort)
  with assms(2) have lt: "\<forall>a \<in> set (map addr [] @ map (\<lambda>p. addr (message p)) ?ps). a < fresh"
    by auto
  from priority_scan_distinct [OF d lt, of E T 0] show ?thesis
    by (simp add: priorityBasedCompress_def Let_def distinct_map_sort_key)
qed

text \<open>
  Claim C7. On a transcript of pairwise different message objects, neither the sliding
  window nor the priority-based strategy returns an object twice: the addresses of the
  output are pairwise different. A turn that the priority-based strategy truncates enters
  the output as one fresh object.
\<close>

theorem no_turn_instance_twice:
  assumes "distinct_objects fresh msgs"
  shows "distinct (map addr (slidingWindowCompress E msgs targetTokens))
         \<and> distinct (map addr (priorityBasedCompress E fresh msgs targetTokens))"
proof -
  from assms have d: "distinct (map addr msgs)" and lt: "\<forall>m \<in> set msgs. addr m < fresh"
    by (simp_all add: distinct_objects_def list_all_iff)
  from d have dm: "distinct msgs" and inj: "inj_on addr (set msgs)"
    by (simp_all add: distinct_map)
  from slidingWindowCompress_distinct [OF dm, of E targetTokens]
  have "distinct (slidingWindowCompress E msgs targetTokens)"
    and sub: "set (slidingWindowCompress E msgs targetTokens) \<subseteq> set msgs"
    by simp_all
  moreover from inj sub have "inj_on addr (set (slidingWindowCompress E msgs targetTokens))"
    by (rule inj_on_subset)
  ultimately have "distinct (map addr (slidingWindowCompress E msgs targetTokens))"
    by (simp add: distinct_map)
  with priorityBasedCompress_distinct [OF d lt, of E targetTokens] show ?thesis by simp
qed

theorem no_turn_instance_twice_witness:
  "distinct_objects 2 short_then_long
   \<and> distinct (map addr (slidingWindowCompress example_env short_then_long 10))
   \<and> distinct (map addr (priorityBasedCompress example_env 2 short_then_long 10))"
proof -
  have h: "distinct_objects 2 short_then_long" by code_simp
  show ?thesis
    using h no_turn_instance_twice [OF h, of example_env 10] by simp
qed

subsection \<open>The order of the turns\<close>

text \<open>
  The sliding window returns a subsequence of the transcript and Summarize the summary
  turn followed by a suffix; Truncate returns a suffix (\<open>truncateContext_suffix\<close>).
\<close>

lemma indexOf_in_set:
  "x \<in> set xs \<Longrightarrow>
     0 \<le> indexOf xs x \<and> nat (indexOf xs x) < length xs \<and> xs ! nat (indexOf xs x) = x"
proof (induction xs)
  case Nil
  then show ?case by simp
next
  case (Cons a xs)
  show ?case
  proof (cases "a = x")
    case True
    then show ?thesis by simp
  next
    case False
    with Cons.prems have "x \<in> set xs" by simp
    from Cons.IH [OF this] False show ?thesis by (simp add: nat_add_distrib)
  qed
qed

lemma inj_on_indexOf: "inj_on (indexOf xs) (set xs)"
proof (rule inj_onI)
  fix x y
  assume "x \<in> set xs" "y \<in> set xs" "indexOf xs x = indexOf xs y"
  with indexOf_in_set [of x xs] indexOf_in_set [of y xs] show "x = y" by metis
qed

lemma indexOf_nth:
  "distinct xs \<Longrightarrow> i < length xs \<Longrightarrow> indexOf xs (xs ! i) = int i"
proof (induction xs arbitrary: i)
  case Nil
  then show ?case by simp
next
  case (Cons a xs)
  show ?case
  proof (cases i)
    case 0
    then show ?thesis by simp
  next
    case (Suc j)
    with Cons.prems have j: "j < length xs" and d: "distinct xs" and "a \<noteq> xs ! j"
      by auto
    with Cons.IH [OF d j] Suc show ?thesis by simp
  qed
qed

lemma sorted_indexOf: "distinct xs \<Longrightarrow> sorted (map (indexOf xs) xs)"
  by (simp add: sorted_iff_nth_mono indexOf_nth)

lemma sort_by_index_filter:
  assumes "distinct msgs" and "distinct xs" and "set xs \<subseteq> set msgs"
  shows "sort_key (indexOf msgs) xs = filter (\<lambda>m. m \<in> set xs) msgs"
proof -
  let ?f = "indexOf msgs"
  let ?A = "sort_key ?f xs"
  let ?B = "filter (\<lambda>m. m \<in> set xs) msgs"
  have sets: "set ?A = set xs" "set ?B = set xs" using assms(3) by auto
  have inj: "inj_on ?f (set xs)"
    using inj_on_indexOf [of msgs] assms(3) by (rule inj_on_subset)
  have "sorted (map ?f ?A)" by (rule sorted_sort_key)
  moreover have "distinct (map ?f ?A)"
    using assms(2) inj sets by (simp add: distinct_map)
  moreover have "sorted (map ?f ?B)"
    using sorted_indexOf [OF assms(1)] by (rule sorted_filter)
  moreover have "distinct (map ?f ?B)"
    using assms(1) inj sets by (simp add: distinct_map)
  moreover have "set (map ?f ?A) = set (map ?f ?B)" using sets by simp
  ultimately have "map ?f ?A = map ?f ?B" by (rule sorted_distinct_set_unique)
  moreover have "inj_on ?f (set ?A \<union> set ?B)" using inj sets by simp
  ultimately show ?thesis by (simp only: inj_on_map_eq_map)
qed

lemma slidingWindowCompress_subseq:
  assumes "distinct msgs"
  shows "subseq (slidingWindowCompress E msgs T) msgs"
proof -
  let ?result = "window_scan E msgs T (nat \<lceil>real (length msgs) * 0.3\<rceil>)
                   (int (length msgs) - 1)
                   (keep_important E msgs T (identifyImportantMessages E msgs))"
  from keep_important_distinct [OF assms, of E T]
  have "distinct (keep_important E msgs T (identifyImportantMessages E msgs))"
    and "set (keep_important E msgs T (identifyImportantMessages E msgs)) \<subseteq> set msgs"
    by simp_all
  from window_scan_distinct [OF this]
  have "distinct ?result" and "set ?result \<subseteq> set msgs" by simp_all
  from sort_by_index_filter [OF assms this]
  have "slidingWindowCompress E msgs T = filter (\<lambda>m. m \<in> set ?result) msgs"
    by (simp add: slidingWindowCompress_def Let_def)
  then show ?thesis by simp
qed

lemma summarizeContext_suffix:
  assumes "summarizeContext E fresh msgs T = Some y"
  shows "\<exists>s kept. fst y = summaryMessage fresh s # kept \<and> suffix kept msgs"
proof -
  let ?ok = "\<lambda>(E :: 'a env) (fresh :: nat) (msgs :: 'a MessageParam list) (T :: real)
               (y :: 'a MessageParam list \<times> string).
      \<forall>all. suffix msgs all \<longrightarrow>
        (\<exists>s kept. fst y = summaryMessage fresh s # kept \<and> suffix kept all)"
  have "?ok E fresh msgs T y"
  proof (rule summarizeContext.raw_induct [where P = ?ok, OF _ assms])
    fix f and E :: "'a env" and fresh msgs T and y :: "'a MessageParam list \<times> string"
    assume IH: "\<And>E fresh msgs T y. f E fresh msgs T = Some y \<Longrightarrow> ?ok E fresh msgs T y"
      and body: "(let preserveCount = nat \<lfloor>real (length msgs) * (2 / 10)\<rfloor>;
          toSummarize = slice_upto_end preserveCount msgs;
          preserved = slice_from_end preserveCount msgs;
          summaryText = generateSummary E toSummarize;
          compressedMessages = summaryMessage fresh summaryText # preserved
      in if T < real (countTokens E compressedMessages)
         then f E fresh preserved T
         else Some (compressedMessages, summaryText)) = Some y"
    let ?preserved = "slice_from_end (nat \<lfloor>real (length msgs) * (2 / 10)\<rfloor>) msgs"
    let ?s = "generateSummary E (slice_upto_end (nat \<lfloor>real (length msgs) * (2 / 10)\<rfloor>) msgs)"
    have suf: "suffix ?preserved msgs"
      by (simp add: slice_from_end_def suffix_drop)
    show "?ok E fresh msgs T y"
    proof (intro allI impI)
      fix all assume "suffix msgs all"
      with suf have sa: "suffix ?preserved all" by (rule suffix_order.trans)
      show "\<exists>s kept. fst y = summaryMessage fresh s # kept \<and> suffix kept all"
      proof (cases "T < real (countTokens E (summaryMessage fresh ?s # ?preserved))")
        case True
        with body have "f E fresh ?preserved T = Some y" by (simp add: Let_def)
        from IH [OF this] sa show ?thesis by blast
      next
        case False
        with body have "y = (summaryMessage fresh ?s # ?preserved, ?s)" by (simp add: Let_def)
        with sa show ?thesis by auto
      qed
    qed
  qed
  then show ?thesis by blast
qed

text \<open>
  Claim C3 fails on the code for the priority-based strategy. A turn that does not fit is
  replaced by a truncated copy, a new object; the final sort asks \<^verbatim>\<open>messages.indexOf\<close>
  for it, gets \<open>-1\<close>, and puts the copy before every turn that was kept whole. On the
  transcript of a 2-token user turn and a 20-token assistant turn with the budget 10, the
  output starts with the truncated copy of the second turn, followed by the first turn.
\<close>

theorem priorityBasedCompress_truncated_turn_first:
  "truncateMessage example_env 2 (short_then_long ! 1) (10 - 2)
     = Some (text_message 2 Assistant ''aaaaaaaa... [TRUNCATED]'')
   \<and> indexOf short_then_long (text_message 2 Assistant ''aaaaaaaa... [TRUNCATED]'') = - 1
   \<and> priorityBasedCompress example_env 2 short_then_long 10
       = [text_message 2 Assistant ''aaaaaaaa... [TRUNCATED]'', short_then_long ! 0]
   \<and> map_option messages
         (compressContext example_env 2 short_then_long priority_10 DEFAULT_MAX_TOKENS)
       = Some [text_message 2 Assistant ''aaaaaaaa... [TRUNCATED]'', short_then_long ! 0]"
  by code_simp

end
